theory Spec2Isabelle
  imports Complex_Main "HOL-Library.Word"
begin

section \<open>Values and errors\<close>

text \<open>
  The notebooks compute with float64 numbers.  A float64 is modelled by its value: a finite
  number is an exact real, and the special values of IEEE 754 are kept apart: the two
  infinities, NaN and the negative zero (\<open>Fin 0\<close> is the positive zero).  A result whose
  magnitude reaches \<open>overflow_threshold\<close> is an infinity, as in round-to-nearest.  Rounding
  of finite results, underflow to zero included, is not modelled.
\<close>

datatype f64 = Fin real | NegZero | PInf | NInf | NaN

text \<open>
  Errors are values, named after the Python exceptions.
\<close>

datatype py_error =
    ValueError
  | IndexError
  | KeyError
  | ZeroDivisionError
  | OverflowError

definition is_nan :: "f64 \<Rightarrow> bool" where
  "is_nan v = (v = NaN)"

definition is_inf :: "f64 \<Rightarrow> bool" where
  "is_inf v = (v = PInf \<or> v = NInf)"

definition is_zero :: "f64 \<Rightarrow> bool" where
  "is_zero v = (v = Fin 0 \<or> v = NegZero)"

definition is_finite :: "f64 \<Rightarrow> bool" where
  "is_finite v = (\<not> is_nan v \<and> \<not> is_inf v)"

fun sign_bit :: "f64 \<Rightarrow> bool" where
  "sign_bit (Fin r) = (r < 0)"
| "sign_bit NegZero = True"
| "sign_bit PInf = False"
| "sign_bit NInf = True"
| "sign_bit NaN = False"

text \<open>The number a finite value stands for.\<close>

fun value_of :: "f64 \<Rightarrow> real" where
  "value_of (Fin r) = r"
| "value_of v = 0"

text \<open>
  The largest float64 is \<open>2 ^ 1024 - 2 ^ 971\<close>; an exact result of magnitude
  \<open>2 ^ 1024 - 2 ^ 970\<close> or more rounds to an infinity.
\<close>

definition overflow_threshold :: real where
  "overflow_threshold = 2 ^ 1024 - 2 ^ 970"

definition signed_inf :: "bool \<Rightarrow> f64" where
  "signed_inf negative = (if negative then NInf else PInf)"

definition signed_zero :: "bool \<Rightarrow> f64" where
  "signed_zero negative = (if negative then NegZero else Fin 0)"

text \<open>
  The float64 for the exact result \<open>r\<close> of an operation on finite operands; \<open>negative\<close> is
  the sign an exact zero takes.
\<close>

definition finite_result :: "bool \<Rightarrow> real \<Rightarrow> f64" where
  "finite_result negative r =
     (if overflow_threshold \<le> r then PInf
      else if r \<le> - overflow_threshold then NInf
      else if r = 0 then signed_zero negative
      else Fin r)"

definition fneg :: "f64 \<Rightarrow> f64" where
  "fneg v =
     (if is_nan v then NaN
      else if is_inf v then signed_inf (\<not> sign_bit v)
      else if is_zero v then signed_zero (\<not> sign_bit v)
      else Fin (- value_of v))"

text \<open>A sum that is exactly zero is the positive zero, unless both operands are negative.\<close>

definition fadd :: "f64 \<Rightarrow> f64 \<Rightarrow> f64" where
  "fadd a b =
     (if is_nan a \<or> is_nan b then NaN
      else if is_inf a \<and> is_inf b then (if a = b then a else NaN)
      else if is_inf a then a
      else if is_inf b then b
      else finite_result (sign_bit a \<and> sign_bit b) (value_of a + value_of b))"

definition fsub :: "f64 \<Rightarrow> f64 \<Rightarrow> f64" where
  "fsub a b = fadd a (fneg b)"

definition fmul :: "f64 \<Rightarrow> f64 \<Rightarrow> f64" where
  "fmul a b =
     (if is_nan a \<or> is_nan b then NaN
      else if (is_inf a \<and> is_zero b) \<or> (is_zero a \<and> is_inf b) then NaN
      else if is_inf a \<or> is_inf b then signed_inf (sign_bit a \<noteq> sign_bit b)
      else finite_result (sign_bit a \<noteq> sign_bit b) (value_of a * value_of b))"

text \<open>
  Division as numpy and C do it on float64: a zero divisor is no error, the quotient is an
  infinity with the sign of the operands, or NaN.
\<close>

definition fdiv :: "f64 \<Rightarrow> f64 \<Rightarrow> f64" where
  "fdiv a b =
     (if is_nan a \<or> is_nan b then NaN
      else if (is_inf a \<and> is_inf b) \<or> (is_zero a \<and> is_zero b) then NaN
      else if is_inf a \<or> is_zero b then signed_inf (sign_bit a \<noteq> sign_bit b)
      else if is_inf b then signed_zero (sign_bit a \<noteq> sign_bit b)
      else finite_result (sign_bit a \<noteq> sign_bit b) (value_of a / value_of b))"

definition fexp :: "f64 \<Rightarrow> f64" where
  "fexp v =
     (if is_nan v then NaN
      else if v = PInf then PInf
      else if v = NInf then Fin 0
      else finite_result False (exp (value_of v)))"

text \<open>\<open>v ** n\<close> for a literal exponent \<open>n\<close>.\<close>

fun fpow :: "f64 \<Rightarrow> nat \<Rightarrow> f64" where
  "fpow v 0 = Fin 1"
| "fpow v (Suc n) = fmul v (fpow v n)"

section \<open>One-dimensional numpy arrays\<close>

type_synonym ndarray = "f64 list"

definition np_zeros :: "nat \<Rightarrow> ndarray" where
  "np_zeros n = replicate n (Fin 0)"

definition np_exp :: "ndarray \<Rightarrow> ndarray" where
  "np_exp a = map fexp a"

definition array_pow :: "ndarray \<Rightarrow> nat \<Rightarrow> ndarray" where
  "array_pow a n = map (\<lambda>v. fpow v n) a"

definition array_mul_scalar :: "ndarray \<Rightarrow> f64 \<Rightarrow> ndarray" where
  "array_mul_scalar a s = map (\<lambda>v. fmul v s) a"

definition array_div_scalar :: "ndarray \<Rightarrow> f64 \<Rightarrow> ndarray" where
  "array_div_scalar a s = map (\<lambda>v. fdiv v s) a"

text \<open>
  A binary operation on two arrays broadcasts: equal shapes go elementwise, a shape of one
  element is stretched, any other pair of shapes raises ValueError.
\<close>

definition broadcast :: "(f64 \<Rightarrow> f64 \<Rightarrow> f64) \<Rightarrow> ndarray \<Rightarrow> ndarray \<Rightarrow> py_error + ndarray" where
  "broadcast f a b =
     (if length a = length b then Inr (map2 f a b)
      else if length a = 1 then Inr (map (f (hd a)) b)
      else if length b = 1 then Inr (map (\<lambda>v. f v (hd b)) a)
      else Inl ValueError)"

section \<open>Loops\<close>

text \<open>
  A \<^verbatim>\<open>for\<close> loop over a range whose body may raise: the state is threaded through the
  iterations and the first error ends the loop.
\<close>

fun for_range :: "'i list \<Rightarrow> ('i \<Rightarrow> 's \<Rightarrow> py_error + 's) \<Rightarrow> 's \<Rightarrow> py_error + 's" where
  "for_range [] body s = Inr s"
| "for_range (i # is) body s =
     (case body i s of Inl e \<Rightarrow> Inl e | Inr s' \<Rightarrow> for_range is body s')"

section \<open>The interpolation kernel and its six execution strategies\<close>

text \<open>
  \<^verbatim>\<open>(np.exp(y0**2) * (x1 - x) + y1 * (x - x0)) / (x1 - x0)\<close> on arrays \<open>y0\<close>, \<open>y1\<close> and
  Python scalars \<open>x0\<close>, \<open>x1\<close>, \<open>x\<close>: the differences are scalar subtractions, every other
  operation is numpy's.
\<close>

definition linear_interpolate ::
  "ndarray \<Rightarrow> ndarray \<Rightarrow> f64 \<Rightarrow> f64 \<Rightarrow> f64 \<Rightarrow> py_error + ndarray" where
  "linear_interpolate y0 y1 x0 x1 x =
     (case broadcast fadd (array_mul_scalar (np_exp (array_pow y0 2)) (fsub x1 x))
                          (array_mul_scalar y1 (fsub x x0)) of
        Inl e \<Rightarrow> Inl e
      | Inr s \<Rightarrow> Inr (array_div_scalar s (fsub x1 x0)))"

subsection \<open>numexpr: the expression compiled from a string\<close>

text \<open>
  \<^verbatim>\<open>ne.evaluate\<close> receives the expression as text and takes the value of each name from
  the caller's variables.  The text is modelled by its syntax tree; a name may stand for a
  scalar or for an array, and a name that is not bound raises KeyError.  Arrays broadcast
  as in numpy, except that an empty operand makes the result empty whatever the other
  operand's length.
\<close>

datatype ne_value = Scalar f64 | Array ndarray

datatype ne_expr =
    EVar string
  | EExp ne_expr
  | EPow ne_expr nat
  | EMul ne_expr ne_expr
  | EAdd ne_expr ne_expr
  | ESub ne_expr ne_expr
  | EDiv ne_expr ne_expr

fun ne_unary :: "(f64 \<Rightarrow> f64) \<Rightarrow> ne_value \<Rightarrow> ne_value" where
  "ne_unary f (Scalar a) = Scalar (f a)"
| "ne_unary f (Array a) = Array (map f a)"

fun ne_binary :: "(f64 \<Rightarrow> f64 \<Rightarrow> f64) \<Rightarrow> ne_value \<Rightarrow> ne_value \<Rightarrow> py_error + ne_value" where
  "ne_binary f (Scalar a) (Scalar b) = Inr (Scalar (f a b))"
| "ne_binary f (Scalar a) (Array b) = Inr (Array (map (f a) b))"
| "ne_binary f (Array a) (Scalar b) = Inr (Array (map (\<lambda>v. f v b) a))"
| "ne_binary f (Array a) (Array b) =
     (if a = [] \<or> b = [] then Inr (Array [])
      else case broadcast f a b of Inl e \<Rightarrow> Inl e | Inr c \<Rightarrow> Inr (Array c))"

definition ne_both ::
  "(f64 \<Rightarrow> f64 \<Rightarrow> f64) \<Rightarrow> py_error + ne_value \<Rightarrow> py_error + ne_value \<Rightarrow> py_error + ne_value" where
  "ne_both f l r =
     (case l of Inl e \<Rightarrow> Inl e
      | Inr a \<Rightarrow> (case r of Inl e \<Rightarrow> Inl e | Inr b \<Rightarrow> ne_binary f a b))"

fun ne_eval :: "(string \<rightharpoonup> ne_value) \<Rightarrow> ne_expr \<Rightarrow> py_error + ne_value" where
  "ne_eval env (EVar name) = (case env name of None \<Rightarrow> Inl KeyError | Some v \<Rightarrow> Inr v)"
| "ne_eval env (EExp e) =
     (case ne_eval env e of Inl err \<Rightarrow> Inl err | Inr v \<Rightarrow> Inr (ne_unary fexp v))"
| "ne_eval env (EPow e n) =
     (case ne_eval env e of Inl err \<Rightarrow> Inl err | Inr v \<Rightarrow> Inr (ne_unary (\<lambda>a. fpow a n) v))"
| "ne_eval env (EMul a b) = ne_both fmul (ne_eval env a) (ne_eval env b)"
| "ne_eval env (EAdd a b) = ne_both fadd (ne_eval env a) (ne_eval env b)"
| "ne_eval env (ESub a b) = ne_both fsub (ne_eval env a) (ne_eval env b)"
| "ne_eval env (EDiv a b) = ne_both fdiv (ne_eval env a) (ne_eval env b)"

type_synonym evaluator = "ne_expr \<Rightarrow> (string \<rightharpoonup> ne_value) \<Rightarrow> py_error + ne_value"

definition ne_evaluate :: evaluator where
  "ne_evaluate e locals = ne_eval locals e"

text \<open>\<^verbatim>\<open>'(exp(y0**2) * (x1 - x) + y1 * (x - x0))  / (x1 - x0)'\<close>\<close>

definition interpolation_expr :: ne_expr where
  "interpolation_expr =
     EDiv (EAdd (EMul (EExp (EPow (EVar ''y0'') 2)) (ESub (EVar ''x1'') (EVar ''x'')))
                (EMul (EVar ''y1'') (ESub (EVar ''x'') (EVar ''x0''))))
          (ESub (EVar ''x1'') (EVar ''x0''))"

definition interpolation_locals ::
  "ndarray \<Rightarrow> ndarray \<Rightarrow> f64 \<Rightarrow> f64 \<Rightarrow> f64 \<Rightarrow> (string \<rightharpoonup> ne_value)" where
  "interpolation_locals y0 y1 x0 x1 x =
     [''y0'' \<mapsto> Array y0, ''y1'' \<mapsto> Array y1,
      ''x0'' \<mapsto> Scalar x0, ''x1'' \<mapsto> Scalar x1, ''x'' \<mapsto> Scalar x]"

text \<open>
  The function hands the text to the library and returns what the library returns.  The
  evaluator is a parameter, so that a property can be stated for whatever the library does;
  \<open>ne_evaluate\<close> is the evaluator of the model.
\<close>

definition linear_interpolate_numexpr ::
  "evaluator \<Rightarrow> ndarray \<Rightarrow> ndarray \<Rightarrow> f64 \<Rightarrow> f64 \<Rightarrow> f64 \<Rightarrow> py_error + ne_value" where
  "linear_interpolate_numexpr evaluate y0 y1 x0 x1 x =
     evaluate interpolation_expr (interpolation_locals y0 y1 x0 x1 x)"

subsection \<open>Cython: a typed loop over memory views\<close>

text \<open>
  Compiled code that checks no index reads whatever the memory holds past the end of an
  array and raises nothing: \<open>beyond i\<close> is what a read at index \<open>i\<close> past the end finds.
\<close>

definition unchecked_read :: "(nat \<Rightarrow> f64) \<Rightarrow> ndarray \<Rightarrow> nat \<Rightarrow> f64" where
  "unchecked_read beyond a i = (if i < length a then a ! i else beyond i)"

text \<open>
  \<^verbatim>\<open>boundscheck(False)\<close>: \<open>y0[i]\<close> is in range by the loop bound, \<open>y1[i]\<close> is read
  unchecked.  \<^verbatim>\<open>cdivision(True)\<close>: the division is C's, which does not raise.
\<close>

definition linear_cython ::
  "(nat \<Rightarrow> f64) \<Rightarrow> ndarray \<Rightarrow> ndarray \<Rightarrow> f64 \<Rightarrow> f64 \<Rightarrow> f64 \<Rightarrow> py_error + ndarray" where
  "linear_cython beyond y0 y1 x0 x1 x =
     (let y_max = length y0;
          result = np_zeros (length y0)
      in for_range [0..<y_max]
           (\<lambda>i result_view.
              Inr (result_view
                [i := fdiv (fadd (fmul (fexp (fmul (y0 ! i) (y0 ! i))) (fsub x1 x))
                                 (fmul (unchecked_read beyond y1 i) (fsub x x0)))
                           (fsub x1 x0)]))
           result)"

subsection \<open>The Python loop, as it is and compiled by numba\<close>


text \<open>
  \<^verbatim>\<open>@numba.njit\<close> compiles with the Python error model unless told otherwise: a division
  by zero raises ZeroDivisionError.  The compiled code checks no index, and \<open>prange\<close> is
  \<open>range\<close>.
\<close>

definition njit_div :: "f64 \<Rightarrow> f64 \<Rightarrow> py_error + f64" where
  "njit_div a b = (if is_zero b then Inl ZeroDivisionError else Inr (fdiv a b))"

definition linear_interpolate_good ::
  "(nat \<Rightarrow> f64) \<Rightarrow> ndarray \<Rightarrow> ndarray \<Rightarrow> f64 \<Rightarrow> f64 \<Rightarrow> f64 \<Rightarrow> py_error + ndarray" where
  "linear_interpolate_good beyond y0 y1 x0 x1 x =
     for_range [0..<length y0]
       (\<lambda>n out.
          case njit_div (fadd (fmul (fexp (fpow (y0 ! n) 2)) (fsub x1 x))
                              (fmul (unchecked_read beyond y1 n) (fsub x x0)))
                        (fsub x1 x0) of
            Inl e \<Rightarrow> Inl e
          | Inr v \<Rightarrow> Inr (out[n := v]))
       (np_zeros (length y0))"

text \<open>
  The operands and results of the expression on one pair of elements, in the order in which
  they are computed; the last one is the value of the expression.
\<close>

definition interpolate_steps :: "f64 \<Rightarrow> f64 \<Rightarrow> f64 \<Rightarrow> f64 \<Rightarrow> f64 \<Rightarrow> f64 list" where
  "interpolate_steps a b x0 x1 x =
     [a, b, x0, x1, x,
      fpow a 2,
      fexp (fpow a 2),
      fsub x1 x,
      fmul (fexp (fpow a 2)) (fsub x1 x),
      fsub x x0,
      fmul b (fsub x x0),
      fadd (fmul (fexp (fpow a 2)) (fsub x1 x)) (fmul b (fsub x x0)),
      fsub x1 x0,
      fdiv (fadd (fmul (fexp (fpow a 2)) (fsub x1 x)) (fmul b (fsub x x0))) (fsub x1 x0)]"

text \<open>
  \<^verbatim>\<open>fastmath=True\<close> lets the compiler assume that no operand and no result is an infinity
  or NaN, and rearrange the arithmetic on that assumption.  Where the assumption holds the
  value is that of the expression; where it fails the value is whatever the compiled code
  leaves (\<open>poison\<close>).
\<close>

definition fastmath :: "f64 \<Rightarrow> f64 list \<Rightarrow> f64" where
  "fastmath poison steps = (if list_all is_finite steps then last steps else poison)"

text \<open>
  \<^verbatim>\<open>@numba.njit(parallel=True, fastmath=True)\<close>: the iterations are spread over threads.
  Iteration \<open>n\<close> writes \<open>out[n]\<close> only and reads no element of \<open>out\<close>, so the array is
  the one the loop in order produces.  Inside the parallel region nothing is raised: a
  division by zero falls under \<open>fastmath\<close>.  \<open>poison n\<close> is the value left in element
  \<open>n\<close> when the assumption of \<open>fastmath\<close> fails there.
\<close>

definition linear_interpolate_best ::
  "(nat \<Rightarrow> f64) \<Rightarrow> (nat \<Rightarrow> f64) \<Rightarrow> ndarray \<Rightarrow> ndarray \<Rightarrow> f64 \<Rightarrow> f64 \<Rightarrow> f64 \<Rightarrow> py_error + ndarray" where
  "linear_interpolate_best poison beyond y0 y1 x0 x1 x =
     for_range [0..<length y0]
       (\<lambda>n out.
          Inr (out[n := fastmath (poison n)
                           (interpolate_steps (y0 ! n) (unchecked_read beyond y1 n) x0 x1 x)]))
       (np_zeros (length y0))"

text \<open>The expression of the notebook on one pair of elements, in the operations of the model.\<close>

definition interpolate_at :: "f64 \<Rightarrow> f64 \<Rightarrow> f64 \<Rightarrow> f64 \<Rightarrow> f64 \<Rightarrow> f64" where
  "interpolate_at a b x0 x1 x =
     fdiv (fadd (fmul (fexp (fpow a 2)) (fsub x1 x)) (fmul b (fsub x x0))) (fsub x1 x0)"

section \<open>Hashing in a loop and in a pool of processes\<close>

text \<open>
  \<^verbatim>\<open>hashlib.pbkdf2_hmac("sha256", b"password", b"salt", iterations)\<close> is a library call:
  the functions below take it as a parameter, a function from the number of iterations to
  an error or a derived key, so that they are stated for whatever the library does.
\<close>

type_synonym 'd kdf = "int \<Rightarrow> py_error + 'd"

text \<open>
  CPython's function checks the number of iterations before it derives a key: a number
  below 1 raises ValueError, a number above the largest C \<open>int\<close> raises OverflowError.
  The derived key itself is the parameter \<open>dk\<close>.
\<close>

definition INT_MAX :: int where
  "INT_MAX = 2147483647"

definition pbkdf2_hmac :: "(int \<Rightarrow> 'd) \<Rightarrow> 'd kdf" where
  "pbkdf2_hmac dk iterations =
     (if iterations < 1 then Inl ValueError
      else if INT_MAX < iterations then Inl OverflowError
      else Inr (dk iterations))"

text \<open>\<^verbatim>\<open>range(a, b)\<close> on Python integers.\<close>

definition py_range :: "int \<Rightarrow> int \<Rightarrow> int list" where
  "py_range a b = [a..b - 1]"

text \<open>
  The derived keys are thrown away, so all that a run leaves behind besides its value is the
  work it has made the library do.  A function that returns gives its value together with
  the numbers of iterations it has handed to the library, in the order of the calls.
\<close>

definition hash_one :: "'d kdf \<Rightarrow> int \<Rightarrow> py_error + string \<times> int list" where
  "hash_one kdf n =
     (case for_range (py_range 1 n)
             (\<lambda>i calls. case kdf (i * 10000) of
                 Inl e \<Rightarrow> Inl e
               | Inr d \<Rightarrow> Inr (calls @ [i * 10000]))
             [] of
        Inl e \<Rightarrow> Inl e
      | Inr calls \<Rightarrow> Inr (''done'', calls))"

text \<open>
  The state of the loop is the variable \<open>hsh\<close>, unbound before the first iteration, and the
  calls made so far.
\<close>

definition hash_all :: "'d kdf \<Rightarrow> int \<Rightarrow> py_error + string \<times> int list" where
  "hash_all kdf n =
     (case for_range (py_range 0 n)
             (\<lambda>i (hsh, calls). case hash_one kdf n of
                 Inl e \<Rightarrow> Inl e
               | Inr (r, c) \<Rightarrow> Inr (Some r, calls @ c))
             (None, []) of
        Inl e \<Rightarrow> Inl e
      | Inr (hsh, calls) \<Rightarrow> Inr (''done'', calls))"

text \<open>
  \<^verbatim>\<open>executor.map(f, xs)\<close> hands the calls to the workers and yields their outcomes in
  the order of \<open>xs\<close>; an outcome that is an exception is raised when the loop reaches it.
  The model keeps the outcomes and their order and leaves the scheduling out: the calls of
  the tasks are listed task by task.
\<close>

definition executor_map :: "('a \<Rightarrow> py_error + 'r) \<Rightarrow> 'a list \<Rightarrow> (py_error + 'r) list" where
  "executor_map f xs = map f xs"

definition hash_all_process :: "'d kdf \<Rightarrow> int \<Rightarrow> py_error + string \<times> int list" where
  "hash_all_process kdf n =
     (case for_range (zip (py_range 0 n) (executor_map (hash_one kdf) (py_range 0 n)))
             (\<lambda>(arg, res) calls. case res of
                 Inl e \<Rightarrow> Inl e
               | Inr (r, c) \<Rightarrow> Inr (calls @ c))
             [] of
        Inl e \<Rightarrow> Inl e
      | Inr calls \<Rightarrow> Inr (''done'', calls))"

section \<open>Caching with \<^verbatim>\<open>lru_cache\<close>\<close>

text \<open>
  The argument of the cached function is a Python number: a bool, an int or a float (a finite
  one, modelled by its exact value).  \<open>number_of\<close> is the number a value stands for; two
  values are equal for Python's \<^verbatim>\<open>==\<close> when they stand for the same number.
\<close>

datatype py_value = PyBool bool | PyInt int | PyFloat real

fun number_of :: "py_value \<Rightarrow> real" where
  "number_of (PyBool b) = (if b then 1 else 0)"
| "number_of (PyInt i) = of_int i"
| "number_of (PyFloat r) = r"

text \<open>\<^verbatim>\<open>a * b\<close>: a product with a float is a float, any other product is an int.\<close>

fun py_mul :: "py_value \<Rightarrow> py_value \<Rightarrow> py_value" where
  "py_mul (PyFloat a) b = PyFloat (a * number_of b)"
| "py_mul a (PyFloat b) = PyFloat (number_of a * b)"
| "py_mul (PyInt a) (PyInt b) = PyInt (a * b)"
| "py_mul (PyInt a) (PyBool b) = PyInt (a * (if b then 1 else 0))"
| "py_mul (PyBool a) (PyInt b) = PyInt ((if a then 1 else 0) * b)"
| "py_mul (PyBool a) (PyBool b) = PyInt ((if a then 1 else 0) * (if b then 1 else 0))"

definition compute_a_slow_result :: "py_value \<Rightarrow> py_value" where
  "compute_a_slow_result x = py_mul x (PyInt 2)"

text \<open>
  \<^verbatim>\<open>lru_cache(maxsize)\<close> keeps the results of the most recent calls, the most recent
  first.  A call whose key is in the cache returns the stored result and moves the entry to
  the front; any other call runs the function, stores the result and drops the entries
  beyond \<open>maxsize\<close>.  The cache is the state of the decorated function.

  The key of a call (with \<^verbatim>\<open>typed=False\<close>, the default): a lone int argument is its own
  key, any other argument is wrapped in a sequence, and two sequences are equal when their
  elements are equal for \<^verbatim>\<open>==\<close>.  So \<^verbatim>\<open>True\<close> and \<^verbatim>\<open>1.0\<close> have one key, and \<^verbatim>\<open>1\<close> has
  another.
\<close>

datatype cache_key = Bare int | Wrapped real

fun make_key :: "py_value \<Rightarrow> cache_key" where
  "make_key (PyInt i) = Bare i"
| "make_key v = Wrapped (number_of v)"

type_synonym 'v lru = "(cache_key \<times> 'v) list"

definition lru_cache :: "nat \<Rightarrow> (py_value \<Rightarrow> 'v) \<Rightarrow> 'v lru \<Rightarrow> py_value \<Rightarrow> 'v \<times> 'v lru" where
  "lru_cache maxsize f cache x =
     (let key = make_key x
      in case map_of cache key of
           Some v \<Rightarrow> (v, (key, v) # filter (\<lambda>entry. fst entry \<noteq> key) cache)
         | None \<Rightarrow> (let v = f x in (v, take maxsize ((key, v) # cache))))"

definition compute_a_slow_result_cache :: "py_value lru \<Rightarrow> py_value \<Rightarrow> py_value \<times> py_value lru" where
  "compute_a_slow_result_cache cache x = lru_cache 4 (\<lambda>x. py_mul x (PyInt 2)) cache x"

text \<open>The cache after a sequence of calls, starting from a given cache.\<close>

fun cache_after :: "py_value lru \<Rightarrow> py_value list \<Rightarrow> py_value lru" where
  "cache_after cache [] = cache"
| "cache_after cache (x # xs) = cache_after (snd (compute_a_slow_result_cache cache x)) xs"

text \<open>Every entry of the cache holds the result of the function at an argument with its key.\<close>

definition consistent :: "(py_value \<Rightarrow> 'v) \<Rightarrow> 'v lru \<Rightarrow> bool" where
  "consistent f cache = (\<forall>entry \<in> set cache. \<exists>y. fst entry = make_key y \<and> snd entry = f y)"

section \<open>The Mandelbrot set\<close>




subsection \<open>Interpreted\<close>







subsection \<open>Compiled by numba\<close>









section \<open>Loops: general facts\<close>

lemma for_range_append:
  "for_range (xs @ ys) body s =
     (case for_range xs body s of Inl e \<Rightarrow> Inl e | Inr s' \<Rightarrow> for_range ys body s')"
  by (induction xs arbitrary: s) (auto split: sum.splits)

lemma for_range_Inl:
  assumes "for_range xs body s = Inl e"
  shows "\<exists>i \<in> set xs. \<exists>s'. body i s' = Inl e"
  using assms by (induction xs arbitrary: s) (auto split: sum.splits)

lemma for_range_invariant:
  assumes "P s" and "\<And>i s. i \<in> set xs \<Longrightarrow> P s \<Longrightarrow> \<exists>s'. body i s = Inr s' \<and> P s'"
  shows "\<exists>s'. for_range xs body s = Inr s' \<and> P s'"
  using assms
proof (induction xs arbitrary: s)
  case Nil
  then show ?case by simp
next
  case (Cons i xs)
  from Cons.prems obtain s1 where s1: "body i s = Inr s1" "P s1"
    by (meson list.set_intros(1))
  have "\<exists>s'. for_range xs body s1 = Inr s' \<and> P s'"
    using s1(2) Cons.prems(2) by (intro Cons.IH) auto
  with s1 show ?case by simp
qed

lemma for_range_total:
  assumes "\<And>i s. i \<in> set xs \<Longrightarrow> \<exists>s'. body i s = Inr s'"
  shows "\<exists>s'. for_range xs body s = Inr s'"
  using for_range_invariant [of "\<lambda>s. True" s xs body] assms by simp

lemma for_range_cong:
  assumes "\<And>i s. i \<in> set xs \<Longrightarrow> body i s = body' i s"
  shows "for_range xs body s = for_range xs body' s"
  using assms by (induction xs arbitrary: s) (auto split: sum.splits)

lemma for_range_fill:
  assumes "length out = n" and "k \<le> n"
  shows "for_range [k..<n] (\<lambda>i out. Inr (out[i := g i])) out = Inr (take k out @ map g [k..<n])"
  using assms
proof (induction "n - k" arbitrary: k out)
  case 0
  then show ?case by simp
next
  case (Suc d)
  then have lt: "k < n" by linarith
  have step: "for_range [Suc k..<n] (\<lambda>i out. Inr (out[i := g i])) (out[k := g k])
              = Inr (take (Suc k) (out[k := g k]) @ map g [Suc k..<n])"
    using Suc lt by (intro Suc.hyps(1)) auto
  have "take (Suc k) (out[k := g k]) = take k out @ [g k]"
    using lt Suc.prems(1) by (simp add: take_Suc_conv_app_nth)
  with step lt show ?case
    by (simp add: upt_conv_Cons)
qed

lemma for_range_fill_zeros:
  "for_range [0..<n] (\<lambda>i out. Inr (out[i := g i])) (np_zeros n) = Inr (map g [0..<n])"
  using for_range_fill [of "np_zeros n" n 0 g] by (simp add: np_zeros_def)

section \<open>Facts of the arithmetic\<close>

lemmas f64_tests = is_nan_def is_inf_def is_zero_def is_finite_def signed_inf_def signed_zero_def

lemma threshold_pos: "0 < overflow_threshold"
  by (simp add: overflow_threshold_def)

lemma threshold_ge_one: "1 \<le> overflow_threshold"
  by (simp add: overflow_threshold_def)

lemma square_overflows:
  assumes "overflow_threshold \<le> \<bar>r\<bar>"
  shows "overflow_threshold \<le> r * r"
proof -
  have "1 \<le> \<bar>r\<bar>"
    using assms threshold_ge_one by linarith
  then have "\<bar>r\<bar> * 1 \<le> \<bar>r\<bar> * \<bar>r\<bar>"
    by (intro mult_left_mono) simp_all
  then have "\<bar>r\<bar> \<le> r * r"
    by simp
  with assms show ?thesis
    by linarith
qed

lemma fmul_one_fmul: "fmul v (fmul v (Fin 1)) = fmul v v"
proof (cases v)
  case (Fin r)
  show ?thesis
  proof (cases "overflow_threshold \<le> \<bar>r\<bar>")
    case True
    then have "overflow_threshold \<le> r * r"
      by (rule square_overflows)
    with True Fin threshold_pos show ?thesis
      by (auto simp add: fmul_def finite_result_def f64_tests)
  next
    case False
    with Fin threshold_pos show ?thesis
      by (auto simp add: fmul_def finite_result_def f64_tests)
  qed
next
  case NegZero
  with threshold_pos show ?thesis
    by (simp add: fmul_def finite_result_def f64_tests)
next
  case PInf
  then show ?thesis
    by (simp add: fmul_def finite_result_def f64_tests)
next
  case NInf
  then show ?thesis
    by (simp add: fmul_def finite_result_def f64_tests)
next
  case NaN
  then show ?thesis
    by (simp add: fmul_def is_nan_def)
qed

lemma fpow_2: "fpow v 2 = fmul v v"
  by (simp add: numeral_2_eq_2 fmul_one_fmul)

lemma fdiv_zero_not_finite: "is_zero d \<Longrightarrow> \<not> is_finite (fdiv v d)"
  by (auto simp add: fdiv_def f64_tests)

lemma value_of_finite_result:
  "is_finite (finite_result s r) \<Longrightarrow> value_of (finite_result s r) = r"
  by (auto simp add: finite_result_def f64_tests split: if_splits)

lemma value_of_results:
  "is_finite (fadd a b) \<Longrightarrow> is_finite a \<Longrightarrow> is_finite b \<Longrightarrow>
     value_of (fadd a b) = value_of a + value_of b"
  "is_finite (fmul a b) \<Longrightarrow> is_finite a \<Longrightarrow> is_finite b \<Longrightarrow>
     value_of (fmul a b) = value_of a * value_of b"
  "is_finite (fexp a) \<Longrightarrow> is_finite a \<Longrightarrow> value_of (fexp a) = exp (value_of a)"
  "is_finite a \<Longrightarrow> value_of (fneg a) = - value_of a"
  "is_finite a \<Longrightarrow> is_finite (fneg a)"
  by (auto simp add: fadd_def fmul_def fexp_def fneg_def value_of_finite_result f64_tests
      split: if_splits)

lemma value_of_fsub:
  "is_finite (fsub a b) \<Longrightarrow> is_finite a \<Longrightarrow> is_finite b \<Longrightarrow>
     value_of (fsub a b) = value_of a - value_of b"
  by (simp add: fsub_def value_of_results)

lemma value_of_fdiv:
  "is_finite (fdiv a b) \<Longrightarrow> is_finite a \<Longrightarrow> is_finite b \<Longrightarrow>
     value_of (fdiv a b) = value_of a / value_of b"
  by (auto simp add: fdiv_def value_of_finite_result f64_tests split: if_splits)

lemma interpolate_at_closed_form:
  assumes "list_all is_finite (interpolate_steps a b x0 x1 x)"
  shows "value_of (interpolate_at a b x0 x1 x)
         = (exp ((value_of a)\<^sup>2) * (value_of x1 - value_of x)
            + value_of b * (value_of x - value_of x0)) / (value_of x1 - value_of x0)"
  using assms
  by (simp add: interpolate_steps_def interpolate_at_def fpow_2 value_of_results value_of_fsub
      value_of_fdiv power2_eq_square)


section \<open>The interpolation strategies compute one function\<close>

lemma linear_interpolate_same_length:
  assumes "length y0 = length y1"
  shows "linear_interpolate y0 y1 x0 x1 x = Inr (map2 (\<lambda>a b. interpolate_at a b x0 x1 x) y0 y1)"
proof -
  have "map2 fadd (map (\<lambda>v. fmul v (fsub x1 x)) (map fexp (map (\<lambda>v. fpow v 2) y0)))
                  (map (\<lambda>v. fmul v (fsub x x0)) y1)
        = map2 (\<lambda>a b. fadd (fmul (fexp (fpow a 2)) (fsub x1 x)) (fmul b (fsub x x0))) y0 y1"
    by (simp add: zip_map1 zip_map2 split_def)
  with assms show ?thesis
    by (simp add: linear_interpolate_def broadcast_def array_mul_scalar_def np_exp_def
        array_pow_def array_div_scalar_def interpolate_at_def split_def)
qed

lemma map2_nth_upt:
  assumes "length y0 = length y1"
  shows "map (\<lambda>i. f (y0 ! i) (y1 ! i)) [0..<length y0] = map2 f y0 y1"
  using assms by (intro nth_equalityI) simp_all

lemma linear_cython_same_length:
  assumes "length y0 = length y1"
  shows "linear_cython beyond y0 y1 x0 x1 x
         = Inr (map2 (\<lambda>a b. interpolate_at a b x0 x1 x) y0 y1)"
proof -
  let ?g = "\<lambda>i. interpolate_at (y0 ! i) (y1 ! i) x0 x1 x"
  have "linear_cython beyond y0 y1 x0 x1 x
        = for_range [0..<length y0] (\<lambda>i out. Inr (out[i := ?g i])) (np_zeros (length y0))"
    unfolding linear_cython_def Let_def
    using assms by (intro for_range_cong) (simp add: interpolate_at_def fpow_2 unchecked_read_def)
  then show ?thesis
    using map2_nth_upt [OF assms(1), of "\<lambda>a b. interpolate_at a b x0 x1 x"]
    by (simp add: for_range_fill_zeros)
qed


lemma linear_interpolate_good_same_length:
  assumes "length y0 = length y1" and "\<not> is_zero (fsub x1 x0)"
  shows "linear_interpolate_good beyond y0 y1 x0 x1 x
         = Inr (map2 (\<lambda>a b. interpolate_at a b x0 x1 x) y0 y1)"
proof -
  let ?g = "\<lambda>i. interpolate_at (y0 ! i) (y1 ! i) x0 x1 x"
  have "linear_interpolate_good beyond y0 y1 x0 x1 x
        = for_range [0..<length y0] (\<lambda>i out. Inr (out[i := ?g i])) (np_zeros (length y0))"
    unfolding linear_interpolate_good_def
    using assms
    by (intro for_range_cong) (simp add: interpolate_at_def njit_div_def unchecked_read_def)
  then show ?thesis
    using map2_nth_upt [OF assms(1), of "\<lambda>a b. interpolate_at a b x0 x1 x"]
    by (simp add: for_range_fill_zeros)
qed

lemma linear_interpolate_best_elements:
  "linear_interpolate_best poison beyond y0 y1 x0 x1 x
   = Inr (map (\<lambda>n. fastmath (poison n)
                 (interpolate_steps (y0 ! n) (unchecked_read beyond y1 n) x0 x1 x))
            [0..<length y0])"
  by (simp add: linear_interpolate_best_def for_range_fill_zeros)


text \<open>
  C1.  For arrays \<open>y0\<close>, \<open>y1\<close> of the same length and all scalars, \<open>linear_interpolate\<close>
  returns an array as long as its inputs whose \<open>i\<close>-th element is the expression
  \<open>(exp (y0[i] ** 2) * (x1 - x) + y1[i] * (x - x0)) / (x1 - x0)\<close> in float64 arithmetic.
  Where no operand and no result of that expression is an infinity or NaN (nothing
  overflows and \<open>x1 - x0\<close> is not zero), the element stands for the real number
  \<open>(exp (y0[i]\<^sup>2) * (x1 - x) + y1[i] * (x - x0)) / (x1 - x0)\<close>.
\<close>

theorem linear_interpolate_elementwise:
  assumes "length y0 = length y1"
  shows "\<exists>out. linear_interpolate y0 y1 x0 x1 x = Inr out
           \<and> length out = length y0
           \<and> (\<forall>i. i < length y0 \<longrightarrow>
                 out ! i = fdiv (fadd (fmul (fexp (fpow (y0 ! i) 2)) (fsub x1 x))
                                      (fmul (y1 ! i) (fsub x x0)))
                                (fsub x1 x0)
               \<and> (list_all is_finite (interpolate_steps (y0 ! i) (y1 ! i) x0 x1 x) \<longrightarrow>
                    value_of (out ! i)
                    = (exp ((value_of (y0 ! i))\<^sup>2) * (value_of x1 - value_of x)
                       + value_of (y1 ! i) * (value_of x - value_of x0))
                      / (value_of x1 - value_of x0)))"
proof -
  let ?out = "map2 (\<lambda>a b. interpolate_at a b x0 x1 x) y0 y1"
  have run: "linear_interpolate y0 y1 x0 x1 x = Inr ?out"
    using assms by (rule linear_interpolate_same_length)
  have len: "length ?out = length y0"
    using assms by simp
  have nth: "?out ! i = interpolate_at (y0 ! i) (y1 ! i) x0 x1 x" if "i < length y0" for i
    using that assms by simp
  have "?out ! i = fdiv (fadd (fmul (fexp (fpow (y0 ! i) 2)) (fsub x1 x))
                              (fmul (y1 ! i) (fsub x x0)))
                        (fsub x1 x0)
        \<and> (list_all is_finite (interpolate_steps (y0 ! i) (y1 ! i) x0 x1 x) \<longrightarrow>
             value_of (?out ! i)
             = (exp ((value_of (y0 ! i))\<^sup>2) * (value_of x1 - value_of x)
                + value_of (y1 ! i) * (value_of x - value_of x0))
               / (value_of x1 - value_of x0))"
    if "i < length y0" for i
    using nth [OF that] interpolate_at_closed_form [of "y0 ! i" "y1 ! i" x0 x1 x]
    by (simp add: interpolate_at_def)
  with run len show ?thesis
    by blast
qed

lemma exp_1600_overflows: "overflow_threshold \<le> exp 1600"
proof -
  have "(2::real) \<le> exp 1"
    using exp_ge_add_one_self [of "1::real"] by simp
  then have "(2::real) ^ 1600 \<le> exp 1 ^ 1600"
    by (intro power_mono) simp_all
  also have "exp (1::real) ^ 1600 = exp 1600"
    using exp_of_nat_mult [of 1600 "1::real"] by simp
  finally have "(2::real) ^ 1600 \<le> exp 1600" .
  moreover have "overflow_threshold \<le> 2 ^ 1600"
    by (simp add: overflow_threshold_def)
  ultimately show ?thesis
    by linarith
qed

lemma small_steps:
  "list_all is_finite (interpolate_steps (Fin 0) (Fin 2) (Fin 2) (Fin 3) (Fin (5/2)))"
  by (simp add: interpolate_steps_def fpow_2 fmul_def fexp_def fsub_def fadd_def fneg_def fdiv_def
      finite_result_def overflow_threshold_def f64_tests)

lemma small_value:
  "interpolate_at (Fin 0) (Fin 2) (Fin 2) (Fin 3) (Fin (5/2)) = Fin (3/2)"
  by (simp add: interpolate_at_def fpow_2 fmul_def fexp_def fsub_def fadd_def fneg_def fdiv_def
      finite_result_def overflow_threshold_def f64_tests)

lemma overflow_value:
  "interpolate_at (Fin 40) (Fin 7) (Fin 2) (Fin 3) (Fin 3) = NaN"
proof -
  have "fpow (Fin 40) 2 = Fin 1600"
    by (simp add: fpow_2 fmul_def finite_result_def overflow_threshold_def f64_tests)
  moreover have "fexp (Fin 1600) = PInf"
    using exp_1600_overflows by (simp add: fexp_def finite_result_def f64_tests)
  moreover have "fsub (Fin 3) (Fin 3) = Fin 0"
    by (simp add: fsub_def fneg_def fadd_def finite_result_def overflow_threshold_def f64_tests)
  ultimately show ?thesis
    by (simp add: interpolate_at_def fmul_def fadd_def fdiv_def f64_tests)
qed

theorem linear_interpolate_elementwise_witness:
  "length [Fin 0, Fin 40] = length [Fin 2, Fin 7]
   \<and> list_all is_finite (interpolate_steps (Fin 0) (Fin 2) (Fin 2) (Fin 3) (Fin (5/2)))
   \<and> linear_interpolate [Fin 0] [Fin 2] (Fin 2) (Fin 3) (Fin (5/2)) = Inr [Fin (3/2)]
   \<and> (exp ((0::real)\<^sup>2) * (3 - 5/2) + 2 * (5/2 - 2)) / (3 - 2) = 3/2
   \<and> linear_interpolate [Fin 40] [Fin 7] (Fin 2) (Fin 3) (Fin 3) = Inr [NaN]"
  using linear_interpolate_elementwise [of "[Fin 0]" "[Fin 2]" "Fin 2" "Fin 3" "Fin (5/2)"]
    linear_interpolate_elementwise [of "[Fin 40]" "[Fin 7]" "Fin 2" "Fin 3" "Fin 3"]
    small_steps small_value overflow_value
  by (simp add: linear_interpolate_same_length)


lemma nonzero_divisor: "\<not> is_zero (fsub (Fin 3) (Fin 2))"
  by (simp add: fsub_def fneg_def fadd_def finite_result_def overflow_threshold_def f64_tests)


section \<open>Failure modes of the vectorised kernel\<close>

lemma broadcast_compatible:
  assumes "length a = length b \<or> length a = 1 \<or> length b = 1"
  shows "\<exists>c. broadcast f a b = Inr c"
  using assms by (auto simp add: broadcast_def)

text \<open>
  C3, as amended.  When the shapes of \<open>y0\<close> and \<open>y1\<close> are compatible (the same length, or
  one of them of length one), \<open>linear_interpolate\<close> returns an array for all scalars, also
  when \<open>x1 - x0\<close> is zero: every element of the result is an infinity or NaN then, and
  nothing is raised.
\<close>

theorem linear_interpolate_has_no_failure_on_compatible_shapes:
  assumes "length y0 = length y1 \<or> length y0 = 1 \<or> length y1 = 1"
  shows "\<exists>out. linear_interpolate y0 y1 x0 x1 x = Inr out
           \<and> (is_zero (fsub x1 x0) \<longrightarrow> (\<forall>v \<in> set out. v = PInf \<or> v = NInf \<or> v = NaN))"
proof -
  let ?a = "array_mul_scalar (np_exp (array_pow y0 2)) (fsub x1 x)"
  let ?b = "array_mul_scalar y1 (fsub x x0)"
  have "length ?a = length y0" and "length ?b = length y1"
    by (simp_all add: array_mul_scalar_def np_exp_def array_pow_def)
  with assms have "length ?a = length ?b \<or> length ?a = 1 \<or> length ?b = 1"
    by simp
  then have "\<exists>s. broadcast fadd ?a ?b = Inr s"
    by (rule broadcast_compatible)
  then obtain s where "broadcast fadd ?a ?b = Inr s" ..
  then have "linear_interpolate y0 y1 x0 x1 x = Inr (array_div_scalar s (fsub x1 x0))"
    by (simp add: linear_interpolate_def)
  moreover have "\<forall>v \<in> set (array_div_scalar s (fsub x1 x0)). v = PInf \<or> v = NInf \<or> v = NaN"
    if zero: "is_zero (fsub x1 x0)"
  proof
    fix v
    assume "v \<in> set (array_div_scalar s (fsub x1 x0))"
    then obtain u where "v = fdiv u (fsub x1 x0)"
      by (auto simp add: array_div_scalar_def)
    then have "\<not> is_finite v"
      using fdiv_zero_not_finite [OF zero] by simp
    then show "v = PInf \<or> v = NInf \<or> v = NaN"
      by (auto simp add: is_finite_def is_nan_def is_inf_def)
  qed
  ultimately show ?thesis
    by blast
qed

lemma zero_divisor: "is_zero (fsub (Fin 2) (Fin 2))"
  by (simp add: fsub_def fneg_def fadd_def finite_result_def overflow_threshold_def f64_tests)

lemma zero_divisor_value:
  "interpolate_at (Fin 0) (Fin 2) (Fin 2) (Fin 2) (Fin (5/2)) = PInf"
  by (simp add: interpolate_at_def fpow_2 fmul_def fexp_def fsub_def fadd_def fneg_def fdiv_def
      finite_result_def overflow_threshold_def f64_tests)

theorem linear_interpolate_has_no_failure_witness:
  "(length [Fin 0] = length [Fin 2] \<or> length [Fin 0] = 1 \<or> length [Fin 2] = 1)
   \<and> is_zero (fsub (Fin 2) (Fin 2))
   \<and> linear_interpolate [Fin 0] [Fin 2] (Fin 2) (Fin 2) (Fin (5/2)) = Inr [PInf]"
  using linear_interpolate_has_no_failure_on_compatible_shapes
    [of "[Fin 0]" "[Fin 2]" "Fin 2" "Fin 2" "Fin (5/2)"] zero_divisor zero_divisor_value
  by (simp add: linear_interpolate_same_length)

text \<open>
  Arrays of two and of three elements cannot be broadcast against each other, and the sum
  inside \<open>linear_interpolate\<close> raises ValueError.
\<close>

theorem linear_interpolate_shape_mismatch:
  "linear_interpolate [Fin 0, Fin 0] [Fin 0, Fin 0, Fin 0] (Fin 2) (Fin 3) (Fin (5/2))
   = Inl ValueError"
  by (simp add: linear_interpolate_def broadcast_def array_mul_scalar_def np_exp_def
      array_pow_def)

section \<open>The shape of the result\<close>

text \<open>
  For arrays of the same length every strategy that returns an array returns one as long
  as its inputs.  \<open>linear_interpolate\<close>, \<open>linear_cython\<close> and \<open>linear_interpolate_best\<close>
  return for all scalars; \<open>linear_interpolate_good\<close> returns when the arrays are empty or
  \<open>x1 - x0\<close> is not zero, and raises ZeroDivisionError otherwise.
\<close>

theorem strategies_keep_length:
  assumes "length y0 = length y1"
  shows "(\<exists>out. linear_interpolate y0 y1 x0 x1 x = Inr out \<and> length out = length y0)
       \<and> (\<exists>out. linear_cython beyond y0 y1 x0 x1 x = Inr out \<and> length out = length y0)
       \<and> (\<exists>out. linear_interpolate_best poison beyond y0 y1 x0 x1 x = Inr out
             \<and> length out = length y0)
       \<and> (y0 = [] \<or> \<not> is_zero (fsub x1 x0) \<longrightarrow>
            (\<exists>out. linear_interpolate_good beyond y0 y1 x0 x1 x = Inr out
               \<and> length out = length y0))
       \<and> (y0 \<noteq> [] \<and> is_zero (fsub x1 x0) \<longrightarrow>
            linear_interpolate_good beyond y0 y1 x0 x1 x = Inl ZeroDivisionError)"
proof -
  have good_empty: "linear_interpolate_good beyond [] y1 x0 x1 x = Inr []"
    by (simp add: linear_interpolate_good_def np_zeros_def)
  have good_raises: "linear_interpolate_good beyond y0 y1 x0 x1 x = Inl ZeroDivisionError"
    if "y0 \<noteq> []" and "is_zero (fsub x1 x0)"
  proof -
    from that(1) have "[0..<length y0] = 0 # [1..<length y0]"
      by (simp add: upt_conv_Cons)
    with that(2) show ?thesis
      by (simp add: linear_interpolate_good_def njit_div_def)
  qed
  show ?thesis
    using assms good_empty good_raises
    by (auto simp add: linear_interpolate_same_length linear_cython_same_length
        linear_interpolate_best_elements linear_interpolate_good_same_length)
qed

theorem strategies_keep_length_witness:
  "length [Fin 0, Fin 1] = length [Fin 1, Fin 2]
   \<and> \<not> is_zero (fsub (Fin 3) (Fin 2))
   \<and> (\<exists>out. linear_interpolate [Fin 0, Fin 1] [Fin 1, Fin 2] (Fin 2) (Fin 3) (Fin (5/2)) = Inr out
         \<and> length out = length [Fin 0, Fin 1])
   \<and> (\<exists>out. linear_cython (\<lambda>i. NaN) [Fin 0, Fin 1] [Fin 1, Fin 2] (Fin 2) (Fin 3) (Fin (5/2))
             = Inr out
         \<and> length out = length [Fin 0, Fin 1])
   \<and> (\<exists>out. linear_interpolate_best (\<lambda>n. NaN) (\<lambda>i. NaN) [Fin 0, Fin 1] [Fin 1, Fin 2]
               (Fin 2) (Fin 3) (Fin (5/2)) = Inr out
         \<and> length out = length [Fin 0, Fin 1])
   \<and> (\<exists>out. linear_interpolate_good (\<lambda>i. NaN) [Fin 0, Fin 1] [Fin 1, Fin 2]
               (Fin 2) (Fin 3) (Fin (5/2)) = Inr out
         \<and> length out = length [Fin 0, Fin 1])"
  using strategies_keep_length
    [of "[Fin 0, Fin 1]" "[Fin 1, Fin 2]" "Fin 2" "Fin 3" "Fin (5/2)" "\<lambda>i. NaN" "\<lambda>n. NaN"]
    nonzero_divisor
  by simp

text \<open>
  C4.  With \<open>x1 = x0\<close> and arrays of one element, the loop compiled by \<^verbatim>\<open>@numba.njit\<close>
  raises ZeroDivisionError and returns no array, while the vectorised function, the Cython
  loop and the loop compiled with \<^verbatim>\<open>parallel=True, fastmath=True\<close> each return an array of
  one element.
\<close>

theorem linear_interpolate_good_zero_division:
  "linear_interpolate_good beyond [Fin 0] [Fin 0] (Fin 2) (Fin 2) (Fin (5/2))
     = Inl ZeroDivisionError
   \<and> linear_interpolate [Fin 0] [Fin 0] (Fin 2) (Fin 2) (Fin (5/2)) = Inr [NInf]
   \<and> linear_cython beyond [Fin 0] [Fin 0] (Fin 2) (Fin 2) (Fin (5/2)) = Inr [NInf]
   \<and> linear_interpolate_best poison beyond [Fin 0] [Fin 0] (Fin 2) (Fin 2) (Fin (5/2))
     = Inr [poison 0]"
proof -
  have at_zero: "interpolate_at (Fin 0) (Fin 0) (Fin 2) (Fin 2) (Fin (5/2)) = NInf"
    by (simp add: interpolate_at_def fpow_2 fmul_def fexp_def fsub_def fadd_def fneg_def fdiv_def
        finite_result_def overflow_threshold_def f64_tests)
  have "linear_interpolate_good beyond [Fin 0] [Fin 0] (Fin 2) (Fin 2) (Fin (5/2))
        = Inl ZeroDivisionError"
    using zero_divisor by (simp add: linear_interpolate_good_def njit_div_def)
  moreover have "linear_interpolate_best poison beyond [Fin 0] [Fin 0] (Fin 2) (Fin 2) (Fin (5/2))
        = Inr [poison 0]"
    using at_zero
    by (simp add: linear_interpolate_best_elements fastmath_def interpolate_steps_def
        unchecked_read_def interpolate_at_def f64_tests)
  ultimately show ?thesis
    using at_zero by (simp add: linear_interpolate_same_length linear_cython_same_length)
qed
section \<open>Hashing: where an error comes from and where it goes\<close>

lemma kdf_loop_ok:
  fixes kdf :: "'d kdf"
  assumes "\<And>i. i \<in> set xs \<Longrightarrow> \<exists>d. kdf (i * 10000) = Inr d"
  shows "for_range xs
           (\<lambda>i calls. case kdf (i * 10000) of Inl e \<Rightarrow> Inl e | Inr d \<Rightarrow> Inr (calls @ [i * 10000]))
           calls
         = Inr (calls @ map (\<lambda>i. i * 10000) xs)"
  using assms
proof (induction xs arbitrary: calls)
  case Nil
  then show ?case by simp
next
  case (Cons i xs)
  from Cons.prems obtain d where "kdf (i * 10000) = Inr d"
    by (meson list.set_intros(1))
  moreover have "for_range xs
           (\<lambda>i calls. case kdf (i * 10000) of Inl e \<Rightarrow> Inl e | Inr d \<Rightarrow> Inr (calls @ [i * 10000]))
           (calls @ [i * 10000])
         = Inr ((calls @ [i * 10000]) @ map (\<lambda>i. i * 10000) xs)"
    using Cons.prems by (intro Cons.IH) simp
  ultimately show ?case
    by simp
qed

lemma hash_one_done:
  fixes kdf :: "'d kdf"
  assumes "\<And>i. 1 \<le> i \<Longrightarrow> i < n \<Longrightarrow> \<exists>d. kdf (i * 10000) = Inr d"
  shows "hash_one kdf n = Inr (''done'', map (\<lambda>i. i * 10000) (py_range 1 n))"
proof -
  have "for_range (py_range 1 n)
          (\<lambda>i calls. case kdf (i * 10000) of Inl e \<Rightarrow> Inl e | Inr d \<Rightarrow> Inr (calls @ [i * 10000]))
          []
        = Inr ([] @ map (\<lambda>i. i * 10000) (py_range 1 n))"
    using assms by (intro kdf_loop_ok) (simp add: py_range_def)
  then show ?thesis
    by (simp add: hash_one_def)
qed

lemma hash_one_error_source:
  fixes kdf :: "'d kdf"
  assumes "hash_one kdf n = Inl e"
  shows "\<exists>i. 1 \<le> i \<and> i < n \<and> kdf (i * 10000) = Inl e"
proof -
  from assms have "for_range (py_range 1 n)
          (\<lambda>i calls. case kdf (i * 10000) of Inl e \<Rightarrow> Inl e | Inr d \<Rightarrow> Inr (calls @ [i * 10000]))
          [] = Inl e"
    by (simp add: hash_one_def split: sum.splits)
  from for_range_Inl [OF this] obtain i and calls :: "int list"
    where i: "i \<in> set (py_range 1 n)"
      and "(case kdf (i * 10000) of Inl e \<Rightarrow> Inl e | Inr d \<Rightarrow> Inr (calls @ [i * 10000])) = Inl e"
    by blast
  then have "kdf (i * 10000) = Inl e"
    by (simp split: sum.splits)
  with i show ?thesis
    by (auto simp add: py_range_def)
qed

lemma hash_one_first_error:
  fixes kdf :: "'d kdf"
  assumes "1 \<le> i" and "i < n" and "kdf (i * 10000) = Inl e"
    and "\<And>j. 1 \<le> j \<Longrightarrow> j < i \<Longrightarrow> \<exists>d. kdf (j * 10000) = Inr d"
  shows "hash_one kdf n = Inl e"
proof -
  let ?body = "\<lambda>i calls. case kdf (i * 10000) of
                  Inl e \<Rightarrow> Inl e | Inr d \<Rightarrow> Inr (calls @ [i * 10000])"
  have split: "py_range 1 n = [1..i - 1] @ i # [i + 1..n - 1]"
    unfolding py_range_def using assms(1,2) by (intro upto_split3) auto
  have before: "for_range [1..i - 1] ?body [] = Inr ([] @ map (\<lambda>i. i * 10000) [1..i - 1])"
    using assms(4) by (intro kdf_loop_ok) simp
  have "for_range (py_range 1 n) ?body [] = Inl e"
    unfolding split for_range_append before using assms(3) by simp
  then show ?thesis
    by (simp add: hash_one_def)
qed

lemma hash_one_value: "hash_one kdf n = Inr (r, c) \<Longrightarrow> r = ''done''"
  by (auto simp add: hash_one_def split: sum.splits)

lemma repeat_loop:
  "for_range xs (\<lambda>i (hsh, calls). Inr (Some r, calls @ c)) (h, calls)
   = Inr (if xs = [] then h else Some r, calls @ concat (replicate (length xs) c))"
  by (induction xs arbitrary: h calls) simp_all

lemma length_py_range: "length (py_range 0 n) = nat n"
  by (simp add: py_range_def)

lemma hash_all_returns:
  fixes kdf :: "'d kdf"
  assumes "hash_one kdf n = Inr (r, c)"
  shows "hash_all kdf n = Inr (''done'', concat (replicate (nat n) c))"
proof -
  have "for_range (py_range 0 n)
          (\<lambda>i (hsh, calls). case hash_one kdf n of
              Inl e \<Rightarrow> Inl e | Inr (r, c) \<Rightarrow> Inr (Some r, calls @ c))
          (None, [])
        = for_range (py_range 0 n) (\<lambda>i (hsh, calls). Inr (Some r, calls @ c)) (None, [])"
    by (simp add: assms)
  then show ?thesis
    by (simp add: hash_all_def repeat_loop length_py_range)
qed

lemma hash_all_raises:
  fixes kdf :: "'d kdf"
  assumes "hash_one kdf n = Inl e"
  shows "hash_all kdf n = Inl e"
proof -
  from hash_one_error_source [OF assms] have "1 < n"
    by auto
  then have "py_range 0 n = 0 # [1..n - 1]"
    by (simp add: py_range_def upto_rec1)
  with assms show ?thesis
    by (simp add: hash_all_def)
qed

lemma hash_all_Inl_iff:
  fixes kdf :: "'d kdf"
  shows "hash_all kdf n = Inl e \<longleftrightarrow> hash_one kdf n = Inl e"
proof (cases "hash_one kdf n")
  case (Inl e')
  then show ?thesis
    using hash_all_raises [OF Inl] by simp
next
  case (Inr p)
  then obtain r c where "hash_one kdf n = Inr (r, c)"
    by (cases p) simp
  from hash_all_returns [OF this] Inr show ?thesis
    by simp
qed

lemma drain_loop:
  "for_range (zip xs (map f xs))
     (\<lambda>(arg, res) calls. case res of Inl e \<Rightarrow> Inl e | Inr (r, c) \<Rightarrow> Inr (calls @ c)) s
   = for_range xs (\<lambda>k calls. case f k of Inl e \<Rightarrow> Inl e | Inr (r, c) \<Rightarrow> Inr (calls @ c)) s"
  by (induction xs arbitrary: s) (auto split: sum.splits)

lemma hash_all_process_unfold:
  "hash_all_process kdf n =
     (case for_range (py_range 0 n)
             (\<lambda>k calls. case hash_one kdf k of
                 Inl e \<Rightarrow> Inl e | Inr (r, c) \<Rightarrow> Inr (calls @ c)) [] of
        Inl e \<Rightarrow> Inl e
      | Inr calls \<Rightarrow> Inr (''done'', calls))"
  by (simp add: hash_all_process_def executor_map_def drain_loop)

lemma tasks_loop_ok:
  fixes kdf :: "'d kdf"
  assumes "\<And>k. k \<in> set xs \<Longrightarrow> hash_one kdf k = Inr (''done'', map (\<lambda>i. i * 10000) (py_range 1 k))"
  shows "for_range xs
           (\<lambda>k calls. case hash_one kdf k of Inl e \<Rightarrow> Inl e | Inr (r, c) \<Rightarrow> Inr (calls @ c))
           calls
         = Inr (calls @ concat (map (\<lambda>k. map (\<lambda>i. i * 10000) (py_range 1 k)) xs))"
  using assms by (induction xs arbitrary: calls) simp_all

lemma hash_all_process_done:
  fixes kdf :: "'d kdf"
  assumes "\<And>i. 1 \<le> i \<Longrightarrow> i < n - 1 \<Longrightarrow> \<exists>d. kdf (i * 10000) = Inr d"
  shows "hash_all_process kdf n
         = Inr (''done'', concat (map (\<lambda>k. map (\<lambda>i. i * 10000) (py_range 1 k)) (py_range 0 n)))"
proof -
  have "hash_one kdf k = Inr (''done'', map (\<lambda>i. i * 10000) (py_range 1 k))"
    if "k \<in> set (py_range 0 n)" for k
  proof -
    from that have "k \<le> n - 1"
      by (simp add: py_range_def)
    then show ?thesis
      using assms by (intro hash_one_done) auto
  qed
  then have "for_range (py_range 0 n)
          (\<lambda>k calls. case hash_one kdf k of Inl e \<Rightarrow> Inl e | Inr (r, c) \<Rightarrow> Inr (calls @ c)) []
        = Inr ([] @ concat (map (\<lambda>k. map (\<lambda>i. i * 10000) (py_range 1 k)) (py_range 0 n)))"
    by (intro tasks_loop_ok)
  then show ?thesis
    by (simp add: hash_all_process_unfold)
qed

lemma hash_all_process_error_source:
  fixes kdf :: "'d kdf"
  assumes "hash_all_process kdf n = Inl e"
  shows "\<exists>i. 1 \<le> i \<and> i < n - 1 \<and> kdf (i * 10000) = Inl e"
proof -
  from assms have "for_range (py_range 0 n)
          (\<lambda>k calls. case hash_one kdf k of Inl e \<Rightarrow> Inl e | Inr (r, c) \<Rightarrow> Inr (calls @ c)) []
        = Inl e"
    by (simp add: hash_all_process_unfold split: sum.splits)
  from for_range_Inl [OF this] obtain k and calls :: "int list"
    where k: "k \<in> set (py_range 0 n)"
      and "(case hash_one kdf k of Inl e \<Rightarrow> Inl e | Inr (r, c) \<Rightarrow> Inr (calls @ c)) = Inl e"
    by blast
  then have "hash_one kdf k = Inl e"
    by (simp split: sum.splits prod.splits)
  from hash_one_error_source [OF this] obtain i where "1 \<le> i" "i < k" "kdf (i * 10000) = Inl e"
    by blast
  moreover from k have "k \<le> n - 1"
    by (simp add: py_range_def)
  ultimately show ?thesis
    by (intro exI [of _ i]) simp
qed

lemma hash_all_process_first_error:
  fixes kdf :: "'d kdf"
  assumes "1 \<le> i" and "i < n - 1" and "kdf (i * 10000) = Inl e"
    and "\<And>j. 1 \<le> j \<Longrightarrow> j < i \<Longrightarrow> \<exists>d. kdf (j * 10000) = Inr d"
  shows "hash_all_process kdf n = Inl e"
proof -
  let ?body = "\<lambda>k calls. case hash_one kdf k of
                  Inl e \<Rightarrow> Inl e | Inr (r, c) \<Rightarrow> Inr (calls @ c)"
  have "[0..n - 1] = [0..(i + 1) - 1] @ (i + 1) # [(i + 1) + 1..n - 1]"
    using assms(1,2) by (intro upto_split3) auto
  then have split: "py_range 0 n = [0..i] @ (i + 1) # [(i + 1) + 1..n - 1]"
    by (simp add: py_range_def)
  have "hash_one kdf k = Inr (''done'', map (\<lambda>i. i * 10000) (py_range 1 k))"
    if "k \<in> set [0..i]" for k
    using that assms(4) by (intro hash_one_done) auto
  then have before: "for_range [0..i] ?body []
      = Inr ([] @ concat (map (\<lambda>k. map (\<lambda>i. i * 10000) (py_range 1 k)) [0..i]))"
    by (intro tasks_loop_ok)
  have "hash_one kdf (i + 1) = Inl e"
    using assms by (intro hash_one_first_error [of i]) auto
  then have "for_range (py_range 0 n) ?body [] = Inl e"
    unfolding split for_range_append before by simp
  then show ?thesis
    by (simp add: hash_all_process_unfold)
qed

text \<open>
  C7.  The functions handle no error themselves.  An error returned by \<open>hash_one\<close>,
  \<open>hash_all\<close> or \<open>hash_all_process\<close> is the error of one of the library calls they make;
  when a library call fails with \<open>e\<close> and every call before it succeeded, each of them fails
  with \<open>e\<close>; and whatever error the expression evaluator raises is the error of
  \<open>linear_interpolate_numexpr\<close>.
\<close>

theorem library_errors_propagate:
  fixes kdf :: "'d kdf"
  shows "(hash_one kdf n = Inl e \<longrightarrow> (\<exists>i. 1 \<le> i \<and> i < n \<and> kdf (i * 10000) = Inl e))
       \<and> (hash_all kdf n = Inl e \<longrightarrow> (\<exists>i. 1 \<le> i \<and> i < n \<and> kdf (i * 10000) = Inl e))
       \<and> (hash_all_process kdf n = Inl e \<longrightarrow>
            (\<exists>i. 1 \<le> i \<and> i < n - 1 \<and> kdf (i * 10000) = Inl e))
       \<and> (1 \<le> i \<and> i < n \<and> kdf (i * 10000) = Inl e
            \<and> (\<forall>j. 1 \<le> j \<and> j < i \<longrightarrow> (\<exists>d. kdf (j * 10000) = Inr d))
          \<longrightarrow> hash_one kdf n = Inl e \<and> hash_all kdf n = Inl e)
       \<and> (1 \<le> i \<and> i < n - 1 \<and> kdf (i * 10000) = Inl e
            \<and> (\<forall>j. 1 \<le> j \<and> j < i \<longrightarrow> (\<exists>d. kdf (j * 10000) = Inr d))
          \<longrightarrow> hash_all_process kdf n = Inl e)
       \<and> (evaluate interpolation_expr (interpolation_locals y0 y1 x0 x1 x) = Inl err
          \<longrightarrow> linear_interpolate_numexpr evaluate y0 y1 x0 x1 x = Inl err)"
proof -
  have one: "hash_one kdf n = Inl e \<longrightarrow> (\<exists>i. 1 \<le> i \<and> i < n \<and> kdf (i * 10000) = Inl e)"
    using hash_one_error_source [of kdf n e] by blast
  have all: "hash_all kdf n = Inl e \<longrightarrow> (\<exists>i. 1 \<le> i \<and> i < n \<and> kdf (i * 10000) = Inl e)"
    using one by (simp add: hash_all_Inl_iff)
  have pool: "hash_all_process kdf n = Inl e \<longrightarrow>
      (\<exists>i. 1 \<le> i \<and> i < n - 1 \<and> kdf (i * 10000) = Inl e)"
    using hash_all_process_error_source [of kdf n e] by blast
  have first: "1 \<le> i \<and> i < n \<and> kdf (i * 10000) = Inl e
        \<and> (\<forall>j. 1 \<le> j \<and> j < i \<longrightarrow> (\<exists>d. kdf (j * 10000) = Inr d))
      \<longrightarrow> hash_one kdf n = Inl e \<and> hash_all kdf n = Inl e"
    using hash_one_first_error [of i n kdf e] by (simp add: hash_all_Inl_iff)
  have first_pool: "1 \<le> i \<and> i < n - 1 \<and> kdf (i * 10000) = Inl e
        \<and> (\<forall>j. 1 \<le> j \<and> j < i \<longrightarrow> (\<exists>d. kdf (j * 10000) = Inr d))
      \<longrightarrow> hash_all_process kdf n = Inl e"
    using hash_all_process_first_error [of i n kdf e] by simp
  have expr: "evaluate interpolation_expr (interpolation_locals y0 y1 x0 x1 x) = Inl err
      \<longrightarrow> linear_interpolate_numexpr evaluate y0 y1 x0 x1 x = Inl err"
    by (simp add: linear_interpolate_numexpr_def)
  from one all pool first first_pool expr show ?thesis
    by simp
qed

lemma numexpr_shape_mismatch:
  "ne_evaluate interpolation_expr
     (interpolation_locals [Fin 0, Fin 0] [Fin 0, Fin 0, Fin 0] (Fin 2) (Fin 3) (Fin (5/2)))
   = Inl ValueError"
  by (simp add: ne_evaluate_def interpolation_expr_def interpolation_locals_def ne_both_def
      broadcast_def)

theorem library_errors_propagate_witness:
  "hash_one (pbkdf2_hmac (\<lambda>it. ())) 214751 = Inl OverflowError
   \<and> hash_all (pbkdf2_hmac (\<lambda>it. ())) 214751 = Inl OverflowError
   \<and> hash_all_process (pbkdf2_hmac (\<lambda>it. ())) 214751 = Inl OverflowError
   \<and> pbkdf2_hmac (\<lambda>it. ()) (214749 * 10000) = Inl OverflowError
   \<and> ne_evaluate interpolation_expr
       (interpolation_locals [Fin 0, Fin 0] [Fin 0, Fin 0, Fin 0] (Fin 2) (Fin 3) (Fin (5/2)))
       = Inl ValueError
   \<and> linear_interpolate_numexpr ne_evaluate [Fin 0, Fin 0] [Fin 0, Fin 0, Fin 0]
       (Fin 2) (Fin 3) (Fin (5/2)) = Inl ValueError"
  using library_errors_propagate [of "pbkdf2_hmac (\<lambda>it. ())" 214751 OverflowError 214749
      ne_evaluate "[Fin 0, Fin 0]" "[Fin 0, Fin 0, Fin 0]" "Fin 2" "Fin 3" "Fin (5/2)" ValueError]
    numexpr_shape_mismatch
  by (simp add: pbkdf2_hmac_def INT_MAX_def)

section \<open>The serial loop and the pool\<close>

lemma pbkdf2_hmac_accepts:
  assumes "1 \<le> i" and "i \<le> 214748"
  shows "\<exists>d. pbkdf2_hmac dk (i * 10000) = Inr d"
  using assms by (simp add: pbkdf2_hmac_def INT_MAX_def)

lemma pbkdf2_hmac_refuses: "pbkdf2_hmac dk (214749 * 10000) = Inl OverflowError"
  by (simp add: pbkdf2_hmac_def INT_MAX_def)

text \<open>
  C10, as amended.  For every \<open>n\<close> up to 214749 \<open>hash_all n\<close> and \<open>hash_all_process n\<close>
  both return \<^verbatim>\<open>"done"\<close>, and for every \<open>n\<close> from 214751 on both raise OverflowError,
  the error of \<^verbatim>\<open>pbkdf2_hmac\<close> on the number of iterations \<open>2147490000\<close>.  When it
  returns, \<open>hash_all n\<close> has made the library calls of \<open>hash_one n\<close>, with the numbers of
  iterations \<open>10000, \<dots>, (n - 1) * 10000\<close>, once for each of its \<open>n\<close> iterations;
  \<open>hash_all_process n\<close> has made the calls of \<open>hash_one 0\<close>, \<dots>, \<open>hash_one (n - 1)\<close>.
\<close>

theorem hash_all_and_hash_all_process_done:
  "(n \<le> 214749 \<longrightarrow>
      hash_all (pbkdf2_hmac dk) n
        = Inr (''done'', concat (replicate (nat n) (map (\<lambda>i. i * 10000) (py_range 1 n))))
    \<and> hash_all_process (pbkdf2_hmac dk) n
        = Inr (''done'', concat (map (\<lambda>k. map (\<lambda>i. i * 10000) (py_range 1 k)) (py_range 0 n))))
   \<and> (214751 \<le> n \<longrightarrow>
        hash_all (pbkdf2_hmac dk) n = Inl OverflowError
      \<and> hash_all_process (pbkdf2_hmac dk) n = Inl OverflowError)"
proof (intro conjI impI)
  assume small: "n \<le> 214749"
  have "hash_one (pbkdf2_hmac dk) n = Inr (''done'', map (\<lambda>i. i * 10000) (py_range 1 n))"
    using small by (intro hash_one_done pbkdf2_hmac_accepts) simp_all
  then show "hash_all (pbkdf2_hmac dk) n
        = Inr (''done'', concat (replicate (nat n) (map (\<lambda>i. i * 10000) (py_range 1 n))))"
    by (rule hash_all_returns)
  show "hash_all_process (pbkdf2_hmac dk) n
        = Inr (''done'', concat (map (\<lambda>k. map (\<lambda>i. i * 10000) (py_range 1 k)) (py_range 0 n)))"
    using small by (intro hash_all_process_done pbkdf2_hmac_accepts) simp_all
next
  assume large: "214751 \<le> n"
  have "hash_one (pbkdf2_hmac dk) n = Inl OverflowError"
    using large pbkdf2_hmac_refuses [of dk]
    by (intro hash_one_first_error [of 214749] pbkdf2_hmac_accepts) simp_all
  then show "hash_all (pbkdf2_hmac dk) n = Inl OverflowError"
    by (rule hash_all_raises)
  show "hash_all_process (pbkdf2_hmac dk) n = Inl OverflowError"
    using large pbkdf2_hmac_refuses [of dk]
    by (intro hash_all_process_first_error [of 214749] pbkdf2_hmac_accepts) simp_all
qed

theorem hash_all_and_hash_all_process_done_witness:
  "(3::int) \<le> 214749
   \<and> hash_all (pbkdf2_hmac (\<lambda>it. ())) 3 = Inr (''done'', [10000, 20000, 10000, 20000, 10000, 20000])
   \<and> hash_all_process (pbkdf2_hmac (\<lambda>it. ())) 3 = Inr (''done'', [10000])
   \<and> (214751::int) \<le> 214752
   \<and> hash_all (pbkdf2_hmac (\<lambda>it. ())) 214752 = Inl OverflowError
   \<and> hash_all_process (pbkdf2_hmac (\<lambda>it. ())) 214752 = Inl OverflowError"
  using hash_all_and_hash_all_process_done [of 3 "\<lambda>it. ()"]
    hash_all_and_hash_all_process_done [of 214752 "\<lambda>it. ()"]
  by (simp add: py_range_def numeral_3_eq_3 upto_rec1)

text \<open>
  Both functions raise OverflowError at \<open>n = 214751\<close>: neither returns \<^verbatim>\<open>"done"\<close>.
\<close>

theorem hash_all_overflow:
  "hash_all (pbkdf2_hmac (\<lambda>it. ())) 214751 = Inl OverflowError
   \<and> hash_all_process (pbkdf2_hmac (\<lambda>it. ())) 214751 = Inl OverflowError"
proof -
  have "hash_one (pbkdf2_hmac (\<lambda>it. ())) 214751 = Inl OverflowError"
    using pbkdf2_hmac_refuses [of "\<lambda>it. ()"]
    by (intro hash_one_first_error [of 214749] pbkdf2_hmac_accepts) simp_all
  then have "hash_all (pbkdf2_hmac (\<lambda>it. ())) 214751 = Inl OverflowError"
    by (rule hash_all_raises)
  moreover have "hash_all_process (pbkdf2_hmac (\<lambda>it. ())) 214751 = Inl OverflowError"
    using pbkdf2_hmac_refuses [of "\<lambda>it. ()"]
    by (intro hash_all_process_first_error [of 214749] pbkdf2_hmac_accepts) simp_all
  ultimately show ?thesis
    by simp
qed

text \<open>
  At \<open>n = 214750\<close>, and there only, the two functions differ: \<open>hash_all\<close> calls
  \<open>hash_one 214750\<close>, whose last number of iterations is refused, where
  \<open>hash_all_process\<close> calls \<open>hash_one\<close> on \<open>0, \<dots>, 214749\<close> only.
\<close>

lemma hash_all_differs_from_pool:
  "hash_all (pbkdf2_hmac (\<lambda>it. ())) 214750 = Inl OverflowError
   \<and> (\<exists>calls. hash_all_process (pbkdf2_hmac (\<lambda>it. ())) 214750 = Inr (''done'', calls))"
proof -
  have "hash_one (pbkdf2_hmac (\<lambda>it. ())) 214750 = Inl OverflowError"
    using pbkdf2_hmac_refuses [of "\<lambda>it. ()"]
    by (intro hash_one_first_error [of 214749] pbkdf2_hmac_accepts) simp_all
  then have "hash_all (pbkdf2_hmac (\<lambda>it. ())) 214750 = Inl OverflowError"
    by (rule hash_all_raises)
  moreover have "hash_all_process (pbkdf2_hmac (\<lambda>it. ())) 214750
      = Inr (''done'', concat (map (\<lambda>k. map (\<lambda>i. i * 10000) (py_range 1 k)) (py_range 0 214750)))"
    by (intro hash_all_process_done pbkdf2_hmac_accepts) simp_all
  ultimately show ?thesis
    by simp
qed

section \<open>The cache and the function it wraps\<close>

lemma lru_cache_hit_or_miss:
  assumes "consistent f cache"
  shows "\<exists>y. make_key y = make_key x \<and> fst (lru_cache maxsize f cache x) = f y"
proof (cases "map_of cache (make_key x)")
  case None
  then show ?thesis
    by (auto simp add: lru_cache_def Let_def)
next
  case (Some v)
  then have "(make_key x, v) \<in> set cache"
    by (rule map_of_SomeD)
  with assms obtain y where "make_key x = make_key y" and "v = f y"
    by (auto simp add: consistent_def)
  with Some show ?thesis
    by (auto simp add: lru_cache_def Let_def)
qed

lemma lru_cache_consistent:
  assumes "consistent f cache"
  shows "consistent f (snd (lru_cache maxsize f cache x))"
proof (cases "map_of cache (make_key x)")
  case None
  have "set (take maxsize ((make_key x, f x) # cache)) \<subseteq> insert (make_key x, f x) (set cache)"
    using set_take_subset [of maxsize "(make_key x, f x) # cache"] by simp
  moreover have "\<exists>y. fst entry = make_key y \<and> snd entry = f y"
    if "entry \<in> insert (make_key x, f x) (set cache)" for entry
    using that assms by (auto simp add: consistent_def)
  ultimately have "consistent f (take maxsize ((make_key x, f x) # cache))"
    unfolding consistent_def by blast
  with None show ?thesis
    by (simp add: lru_cache_def Let_def)
next
  case (Some v)
  then have "(make_key x, v) \<in> set cache"
    by (rule map_of_SomeD)
  with assms have "\<exists>y. make_key x = make_key y \<and> v = f y"
    unfolding consistent_def by fastforce
  with assms have "consistent f ((make_key x, v) # filter (\<lambda>entry. fst entry \<noteq> make_key x) cache)"
    by (auto simp add: consistent_def)
  with Some show ?thesis
    by (simp add: lru_cache_def Let_def)
qed

lemma cache_after_consistent:
  assumes "consistent (\<lambda>x. py_mul x (PyInt 2)) cache"
  shows "consistent (\<lambda>x. py_mul x (PyInt 2)) (cache_after cache xs)"
  using assms
  by (induction xs arbitrary: cache)
    (simp_all add: compute_a_slow_result_cache_def lru_cache_consistent)

lemma make_key_int: "make_key y = make_key (PyInt i) \<Longrightarrow> y = PyInt i"
  by (cases y) simp_all

lemma make_key_number: "make_key y = make_key x \<Longrightarrow> number_of y = number_of x"
  by (cases y; cases x) simp_all

lemma number_of_twice: "number_of (py_mul x (PyInt 2)) = number_of x * 2"
  by (cases x) simp_all

text \<open>
  C8, as amended.  After any sequence of calls of the cached function, starting from the
  empty cache, a call with an int \<open>i\<close> returns what the function without the cache returns,
  \<open>i * 2\<close>; a call with any number \<open>x\<close> returns a value that stands for the same number as
  \<open>x * 2\<close>.
\<close>

theorem cached_result_is_uncached_result:
  "fst (compute_a_slow_result_cache (cache_after [] calls) (PyInt i)) = compute_a_slow_result (PyInt i)
   \<and> compute_a_slow_result (PyInt i) = PyInt (i * 2)
   \<and> number_of (fst (compute_a_slow_result_cache (cache_after [] calls) x))
       = number_of (compute_a_slow_result x)"
proof -
  let ?f = "\<lambda>x. py_mul x (PyInt 2)"
  have inv: "consistent ?f (cache_after [] calls)"
    by (rule cache_after_consistent) (simp add: consistent_def)
  from lru_cache_hit_or_miss [OF inv, of "PyInt i" 4] obtain y
    where "make_key y = make_key (PyInt i)"
      and "fst (lru_cache 4 ?f (cache_after [] calls) (PyInt i)) = ?f y"
    by blast
  then have exact: "fst (lru_cache 4 ?f (cache_after [] calls) (PyInt i)) = ?f (PyInt i)"
    using make_key_int [of y i] by simp
  from lru_cache_hit_or_miss [OF inv, of x 4] obtain z
    where "make_key z = make_key x"
      and "fst (lru_cache 4 ?f (cache_after [] calls) x) = ?f z"
    by blast
  then have "number_of (fst (lru_cache 4 ?f (cache_after [] calls) x)) = number_of (?f x)"
    using make_key_number [of z x] by (simp add: number_of_twice)
  with exact show ?thesis
    by (simp add: compute_a_slow_result_cache_def compute_a_slow_result_def)
qed

theorem cached_result_is_uncached_result_witness:
  "fst (compute_a_slow_result_cache
          (cache_after [] [PyInt 1, PyInt 2, PyInt 3, PyInt 4, PyInt 5, PyBool True]) (PyInt 1))
     = PyInt 2
   \<and> number_of (fst (compute_a_slow_result_cache
          (cache_after [] [PyInt 1, PyInt 2, PyInt 3, PyInt 4, PyInt 5, PyBool True]) (PyFloat 1)))
     = 2"
  using cached_result_is_uncached_result
    [of "[PyInt 1, PyInt 2, PyInt 3, PyInt 4, PyInt 5, PyBool True]" 1 "PyFloat 1"]
  by (simp add: compute_a_slow_result_def)

text \<open>
  After a call with \<^verbatim>\<open>True\<close> the call with \<^verbatim>\<open>1.0\<close> finds the key of \<^verbatim>\<open>True\<close> and returns
  the int \<open>2\<close> stored for it; the function without the cache returns the float \<open>2.0\<close>.
\<close>

theorem cached_result_of_equal_key:
  "fst (compute_a_slow_result_cache (cache_after [] [PyBool True]) (PyFloat 1)) = PyInt 2
   \<and> compute_a_slow_result (PyFloat 1) = PyFloat 2"
  by (simp add: compute_a_slow_result_cache_def compute_a_slow_result_def lru_cache_def Let_def)

section \<open>The Mandelbrot matrix\<close>




subsection \<open>The compiled function computes what the interpreted one does\<close>













end
